theory Spec2Isabelle
  imports
    Main
    "HOL-Library.Multiset"
    "HOL-Library.Char_ord"
    "HOL-Library.List_Lexorder"
    "HOL-Library.Product_Lexorder"
    "HOL-Library.Word"
begin

section \<open>The comic server of \<^verbatim>\<open>src/server.js\<close>\<close>

text \<open>
  The server keeps an in-memory array \<^verbatim>\<open>comicsDB\<close> of comic records, mirrored in
  \<^verbatim>\<open>comics.json\<close>, fills it by scanning a directory of zip archives
  (\<^verbatim>\<open>scanComicsDirectory\<close>, \<^verbatim>\<open>processNewComic\<close>) and serves single pages
  (\<^verbatim>\<open>GET /api/comic/:id/page/:pageNumber\<close>).

  Strings are \<^typ>\<open>string\<close> (lists of bytes), buffers are lists of 8-bit words. The
  functions of Node and of the libraries that the code calls are written out below, each
  with the part of its behaviour that the code can reach.
\<close>

subsection \<open>Library functions\<close>

type_synonym buffer = "8 word list"

definition upperLetters :: string where
  "upperLetters = ''ABCDEFGHIJKLMNOPQRSTUVWXYZ''"

definition lowerLetters :: string where
  "lowerLetters = ''abcdefghijklmnopqrstuvwxyz''"

text \<open>
  \<^verbatim>\<open>String.prototype.toLowerCase\<close> on the ASCII letters. Bytes outside \<open>A..Z\<close> are kept:
  no character outside ASCII lower-cases to a string made only of the letters that occur
  in \<^verbatim>\<open>.zip\<close>, \<^verbatim>\<open>.jpg\<close>, \<^verbatim>\<open>.jpeg\<close>, \<^verbatim>\<open>.png\<close>, \<^verbatim>\<open>.gif\<close>, \<^verbatim>\<open>.webp\<close>, so the
  comparisons the code makes with the result come out the same.
\<close>

definition lowerChar :: "char \<Rightarrow> char" where
  "lowerChar c = (case map_of (zip upperLetters lowerLetters) c of Some l \<Rightarrow> l | None \<Rightarrow> c)"

definition toLowerCase :: "string \<Rightarrow> string" where
  "toLowerCase s = map lowerChar s"

text \<open>
  \<^verbatim>\<open>path.extname\<close> (POSIX flavour). Trailing slashes are dropped and the last path
  component is taken; the extension runs from its last dot to its end. The result is empty
  when there is no dot, when the only dot is the first character of the component, and when
  the component is \<^verbatim>\<open>..\<close>.
\<close>

definition lastComponent :: "string \<Rightarrow> string" where
  "lastComponent p =
     rev (takeWhile (\<lambda>c. c \<noteq> CHR ''/'') (dropWhile (\<lambda>c. c = CHR ''/'') (rev p)))"

definition extname :: "string \<Rightarrow> string" where
  "extname p =
     (let base = lastComponent p;
          ext = CHR ''.'' # rev (takeWhile (\<lambda>c. c \<noteq> CHR ''.'') (rev base));
          pre = take (length base - length ext) base
      in if CHR ''.'' \<notin> set base then []
         else if pre = [] then []
         else if base = ''..'' then []
         else ext)"

text \<open>\<^verbatim>\<open>path.parse(p).name\<close>: the last component without its extension.\<close>

definition parseName :: "string \<Rightarrow> string" where
  "parseName p = (let base = lastComponent p in take (length base - length (extname p)) base)"

text \<open>
  \<^verbatim>\<open>path.join\<close> of a directory and a name. The names joined by the code are fixed
  literals and directory entries, which hold no slash and are neither \<^verbatim>\<open>.\<close> nor
  \<^verbatim>\<open>..\<close>, so no normalisation takes place.
\<close>

definition pathJoin :: "string \<Rightarrow> string \<Rightarrow> string" where
  "pathJoin dir file = dir @ ''/'' @ file"

text \<open>
  \<^verbatim>\<open>Array.prototype.sort(compare)\<close>: a stable sort. An element goes in front of the
  first element it does not compare greater than, so elements that compare equal keep
  their order. For a consistent comparator every stable sort returns this list.
\<close>

fun insertSorted :: "('a \<Rightarrow> 'a \<Rightarrow> int) \<Rightarrow> 'a \<Rightarrow> 'a list \<Rightarrow> 'a list" where
  "insertSorted compare x [] = [x]"
| "insertSorted compare x (y # ys) =
     (if compare x y \<le> 0 then x # y # ys else y # insertSorted compare x ys)"

fun sortWith :: "('a \<Rightarrow> 'a \<Rightarrow> int) \<Rightarrow> 'a list \<Rightarrow> 'a list" where
  "sortWith compare [] = []"
| "sortWith compare (x # xs) = insertSorted compare x (sortWith compare xs)"

text \<open>
  A consistent comparator in the sense of ECMAScript: the sign of \<open>compare a b\<close> is the
  opposite of the sign of \<open>compare b a\<close>, and "not greater" is transitive.
\<close>

definition consistentComparator :: "('a \<Rightarrow> 'a \<Rightarrow> int) \<Rightarrow> bool" where
  "consistentComparator compare \<longleftrightarrow>
     (\<forall>a b. (compare a b < 0) = (0 < compare b a)) \<and>
     (\<forall>a b c. compare a b \<le> 0 \<longrightarrow> compare b c \<le> 0 \<longrightarrow> compare a c \<le> 0)"

text \<open>
  \<^verbatim>\<open>String.prototype.localeCompare\<close> belongs to the runtime (ICU collation), so the
  functions below take the comparison as the parameter \<open>cmp\<close> and the theorems hold for
  each consistent one. For concrete inputs the following instance is used. It is the
  default collation on names made of ASCII letters, digits and dots: the names are first
  compared with case ignored, a dot before the digits and the digits before the letters,
  and names equal up to case are then ordered with lower case first.
\<close>

definition primaryWeight :: "char \<Rightarrow> nat" where
  "primaryWeight c =
     (if c \<in> set upperLetters \<or> c \<in> set lowerLetters then 256 + of_char (lowerChar c)
      else of_char c)"

definition caseWeight :: "char \<Rightarrow> nat" where
  "caseWeight c = (if c \<in> set upperLetters then 1 else 0)"

definition collationKey :: "string \<Rightarrow> nat list \<times> nat list" where
  "collationKey s = (map primaryWeight s, map caseWeight s)"

definition localeCompare :: "string \<Rightarrow> string \<Rightarrow> int" where
  "localeCompare a b =
     (if collationKey a < collationKey b then - 1
      else if collationKey b < collationKey a then 1
      else 0)"

subsection \<open>Archive entries and the ordered page list\<close>

text \<open>
  An entry of an opened archive, as the code reads it: \<^verbatim>\<open>entry.name\<close>,
  \<^verbatim>\<open>entry.isDirectory\<close>, and what \<^verbatim>\<open>zip.readFile(entry)\<close> gives: a buffer, or
  \<open>None\<close> when the entry cannot be decompressed and the call throws.
\<close>

record entry =
  name :: string
  isDirectory :: bool
  readFile :: "buffer option"

definition IMAGE_EXTENSIONS :: "string list" where
  "IMAGE_EXTENSIONS = [''.jpg'', ''.jpeg'', ''.png'', ''.gif'', ''.webp'']"

text \<open>
  The expression bound to \<^verbatim>\<open>images\<close>, written twice in the source with the same text
  (in \<^verbatim>\<open>processNewComic\<close> and in the page route): two filters and a sort.
\<close>

definition images :: "(string \<Rightarrow> string \<Rightarrow> int) \<Rightarrow> entry list \<Rightarrow> entry list" where
  "images cmp zipEntries =
     sortWith (\<lambda>a b. cmp (name a) (name b))
       (filter (\<lambda>entry. toLowerCase (extname (name entry)) \<in> set IMAGE_EXTENSIONS)
         (filter (\<lambda>entry. \<not> isDirectory entry) zipEntries))"

text \<open>The entries that pass both filters, in archive order.\<close>

definition qualifying :: "entry list \<Rightarrow> entry list" where
  "qualifying zipEntries =
     filter (\<lambda>entry. \<not> isDirectory entry \<and>
                     toLowerCase (extname (name entry)) \<in> set IMAGE_EXTENSIONS) zipEntries"

text \<open>
  \<^verbatim>\<open>parseInt(string, 10)\<close>: leading white space is skipped, one sign is read, then the
  longest run of decimal digits; \<open>None\<close> is \<^verbatim>\<open>NaN\<close> (no digit there). The value is an
  unbounded integer: the code only compares it with \<open>0\<close> and with an array length and uses
  it as an index, and a double gives the same answers as the integer it was rounded from.

  White space is every white space character and line terminator of ECMAScript. A route
  parameter is decoded from UTF-8, so each is given by its UTF-8 bytes: the six ASCII
  characters, \<^verbatim>\<open>U+00A0\<close>, \<^verbatim>\<open>U+1680\<close>, \<^verbatim>\<open>U+2000\<close> to \<^verbatim>\<open>U+200A\<close>, \<^verbatim>\<open>U+2028\<close>,
  \<^verbatim>\<open>U+2029\<close>, \<^verbatim>\<open>U+202F\<close>, \<^verbatim>\<open>U+205F\<close>, \<^verbatim>\<open>U+3000\<close> and \<^verbatim>\<open>U+FEFF\<close>.
\<close>

definition whiteSpace :: "string list" where
  "whiteSpace =
     [[CHR 0x09], [CHR 0x0A], [CHR 0x0B], [CHR 0x0C], [CHR 0x0D], [CHR 0x20],
      [CHR 0xC2, CHR 0xA0], [CHR 0xE1, CHR 0x9A, CHR 0x80],
      [CHR 0xE2, CHR 0x80, CHR 0x80], [CHR 0xE2, CHR 0x80, CHR 0x81],
      [CHR 0xE2, CHR 0x80, CHR 0x82], [CHR 0xE2, CHR 0x80, CHR 0x83],
      [CHR 0xE2, CHR 0x80, CHR 0x84], [CHR 0xE2, CHR 0x80, CHR 0x85],
      [CHR 0xE2, CHR 0x80, CHR 0x86], [CHR 0xE2, CHR 0x80, CHR 0x87],
      [CHR 0xE2, CHR 0x80, CHR 0x88], [CHR 0xE2, CHR 0x80, CHR 0x89],
      [CHR 0xE2, CHR 0x80, CHR 0x8A], [CHR 0xE2, CHR 0x80, CHR 0xA8],
      [CHR 0xE2, CHR 0x80, CHR 0xA9], [CHR 0xE2, CHR 0x80, CHR 0xAF],
      [CHR 0xE2, CHR 0x81, CHR 0x9F], [CHR 0xE3, CHR 0x80, CHR 0x80],
      [CHR 0xEF, CHR 0xBB, CHR 0xBF]]"

function skipWhiteSpace :: "string \<Rightarrow> string" where
  "skipWhiteSpace str =
     (case find (\<lambda>w. w \<noteq> [] \<and> take (length w) str = w) whiteSpace of
        None \<Rightarrow> str
      | Some w \<Rightarrow> skipWhiteSpace (drop (length w) str))"
  by pat_completeness auto
termination
proof (relation "measure length")
  show "wf (measure length)" by simp
next
  fix str :: string and w
  assume "find (\<lambda>w. w \<noteq> [] \<and> take (length w) str = w) whiteSpace = Some w"
  then have "w \<noteq> []" and "take (length w) str = w"
    by (auto simp: find_Some_iff)
  then have "str \<noteq> []" by auto
  with \<open>w \<noteq> []\<close> show "(drop (length w) str, str) \<in> measure length" by simp
qed

declare skipWhiteSpace.simps [simp del]

definition digits :: "(char \<times> int) list" where
  "digits = zip ''0123456789'' [0, 1, 2, 3, 4, 5, 6, 7, 8, 9]"

definition digitValue :: "char \<Rightarrow> int" where
  "digitValue c = (case map_of digits c of Some d \<Rightarrow> d | None \<Rightarrow> 0)"

definition parseInt :: "string \<Rightarrow> int option" where
  "parseInt str =
     (let s1 = skipWhiteSpace str;
          negative = (case s1 of c # _ \<Rightarrow> c = CHR ''-'' | [] \<Rightarrow> False);
          s2 = (case s1 of c # rest \<Rightarrow> if c = CHR ''-'' \<or> c = CHR ''+'' then rest else s1
                         | [] \<Rightarrow> s1);
          z = takeWhile (\<lambda>c. c \<in> fst ` set digits) s2
      in if z = [] then None
         else Some ((if negative then - 1 else 1) * foldl (\<lambda>n c. 10 * n + digitValue c) 0 z))"

subsection \<open>Records, files and the state of the server\<close>

text \<open>A comic record, with the fields of the object literal in \<^verbatim>\<open>processNewComic\<close>.\<close>

record comic =
  comicId :: string
  fileName :: string
  filePath :: string
  title :: string
  cover :: string
  pageCount :: nat
  addedAt :: string
  tags :: "string list"

text \<open>
  What is at a path when the code looks: nothing (\<^verbatim>\<open>fs.existsSync\<close> is false and
  \<^verbatim>\<open>new AdmZip\<close> throws), something that \<^verbatim>\<open>new AdmZip\<close> cannot read (it throws), or
  an archive with its entries.
\<close>

datatype archive = Missing | Unreadable | Zip "entry list"

text \<open>
  \<^verbatim>\<open>comics.json\<close>: absent (reading it fails with \<^verbatim>\<open>ENOENT\<close>), present with text that
  \<^verbatim>\<open>JSON.parse\<close> rejects, or present with the array of records that
  \<^verbatim>\<open>JSON.stringify(comicsDB)\<close> wrote.
\<close>

datatype dbContent = Absent | Malformed | Json "comic list"

text \<open>The exceptions that leave \<^verbatim>\<open>scanComicsDirectory\<close> and \<^verbatim>\<open>processNewComic\<close>.\<close>

datatype error = ReaddirError | ArchiveError | ExtractError | CoverWriteError | DbWriteError

datatype completion = Returned | Thrown error

text \<open>
  What the code reads and does not write: its directory, the collation, the listing of the
  comics directory (\<open>None\<close>: \<^verbatim>\<open>readdir\<close> rejects), the archives by path, whether a
  cover file and \<^verbatim>\<open>comics.json\<close> can be written, and the values that \<^verbatim>\<open>uuidv4()\<close>
  and \<^verbatim>\<open>new Date().toISOString()\<close> give at the n-th record. These stay as they are
  while the functions below run. The functions describe handlers that run one after
  another; \<open>overlappingPasses\<close> below is the one place where two passes overlap at an
  \<^verbatim>\<open>await\<close>.
\<close>

record env =
  dirname :: string
  collate :: "string \<Rightarrow> string \<Rightarrow> int"
  readdir :: "string list option"
  archiveAt :: "string \<Rightarrow> archive"
  coverWritable :: "string \<Rightarrow> bool"
  dbWritable :: bool
  uuidv4 :: "nat \<Rightarrow> string"
  toISOString :: "nat \<Rightarrow> string"

text \<open>
  What the code writes: the array \<^verbatim>\<open>comicsDB\<close>, the file \<^verbatim>\<open>comics.json\<close>, the cover
  files by path, and the number of records built so far.
\<close>

record state =
  comicsDB :: "comic list"
  DB_FILE :: dbContent
  coverFiles :: "string \<rightharpoonup> buffer"
  built :: nat

definition COMICS_DIR :: "env \<Rightarrow> string" where
  "COMICS_DIR env = pathJoin (dirname env) ''comics''"

definition coverPathOf :: "env \<Rightarrow> string \<Rightarrow> string" where
  "coverPathOf env coverFileName =
     pathJoin (pathJoin (pathJoin (dirname env) ''public'') ''covers'') coverFileName"

subsection \<open>Scanning the comics directory\<close>

text \<open>
  \<^verbatim>\<open>processNewComic\<close>. Nothing in it catches an exception: a throw of \<^verbatim>\<open>new AdmZip\<close>,
  of \<^verbatim>\<open>zip.readFile\<close> or of one of the two \<^verbatim>\<open>writeFile\<close> calls leaves the function
  with the state reached so far. The record is pushed before \<^verbatim>\<open>comics.json\<close> is
  written. A \<^verbatim>\<open>writeFile\<close> that fails changes no file.
\<close>

definition processNewComic :: "env \<Rightarrow> string \<Rightarrow> state \<Rightarrow> completion \<times> state" where
  "processNewComic env file s =
     (let path = pathJoin (COMICS_DIR env) file in
      case archiveAt env path of
        Missing \<Rightarrow> (Thrown ArchiveError, s)
      | Unreadable \<Rightarrow> (Thrown ArchiveError, s)
      | Zip zipEntries \<Rightarrow>
          (let imgs = images (collate env) zipEntries in
           if length imgs = 0 then (Returned, s)
           else
             (case readFile (hd imgs) of
                None \<Rightarrow> (Thrown ExtractError, s)
              | Some coverData \<Rightarrow>
                  (let comicRecord =
                         \<lparr>comicId = uuidv4 env (built s), fileName = file, filePath = path,
                          title = parseName file, cover = [], pageCount = length imgs,
                          addedAt = toISOString env (built s), tags = []\<rparr>;
                       s1 = s\<lparr>built := Suc (built s)\<rparr>;
                       coverFileName = comicId comicRecord @ ''.jpg'';
                       coverPath = coverPathOf env coverFileName
                   in if \<not> coverWritable env coverPath then (Thrown CoverWriteError, s1)
                      else
                        (let s2 = s1\<lparr>coverFiles := (coverFiles s1)(coverPath \<mapsto> coverData)\<rparr>;
                             comicRecord' = comicRecord\<lparr>cover := ''/covers/'' @ coverFileName\<rparr>;
                             s3 = s2\<lparr>comicsDB := comicsDB s2 @ [comicRecord']\<rparr>
                         in if dbWritable env
                            then (Returned, s3\<lparr>DB_FILE := Json (comicsDB s3)\<rparr>)
                            else (Thrown DbWriteError, s3))))))"

text \<open>
  \<^verbatim>\<open>processNewComic\<close> is an \<^verbatim>\<open>async\<close> function. It runs without a break from its entry
  to \<^verbatim>\<open>await fsp.writeFile(coverPath, coverData)\<close>, where it is suspended with the record
  it has built and the cover data; when the write is over it is resumed, assigns the
  cover, pushes the record and writes \<^verbatim>\<open>comics.json\<close>. The two parts are written out
  here; \<open>processNewComic\<close> above is the first followed at once by the second (lemma
  \<open>processNewComic_split\<close>), which is a call that no other handler interrupts.
\<close>

definition processNewComicStart ::
  "env \<Rightarrow> string \<Rightarrow> state \<Rightarrow> (completion + comic \<times> buffer) \<times> state" where
  "processNewComicStart env file s =
     (let path = pathJoin (COMICS_DIR env) file in
      case archiveAt env path of
        Missing \<Rightarrow> (Inl (Thrown ArchiveError), s)
      | Unreadable \<Rightarrow> (Inl (Thrown ArchiveError), s)
      | Zip zipEntries \<Rightarrow>
          (let imgs = images (collate env) zipEntries in
           if length imgs = 0 then (Inl Returned, s)
           else
             (case readFile (hd imgs) of
                None \<Rightarrow> (Inl (Thrown ExtractError), s)
              | Some coverData \<Rightarrow>
                  (Inr (\<lparr>comicId = uuidv4 env (built s), fileName = file, filePath = path,
                         title = parseName file, cover = [], pageCount = length imgs,
                         addedAt = toISOString env (built s), tags = []\<rparr>, coverData),
                   s\<lparr>built := Suc (built s)\<rparr>))))"

definition processNewComicResume ::
  "env \<Rightarrow> comic \<times> buffer \<Rightarrow> state \<Rightarrow> completion \<times> state" where
  "processNewComicResume env suspended s1 =
     (let comicRecord = fst suspended;
          coverData = snd suspended;
          coverFileName = comicId comicRecord @ ''.jpg'';
          coverPath = coverPathOf env coverFileName
      in if \<not> coverWritable env coverPath then (Thrown CoverWriteError, s1)
         else
           (let s2 = s1\<lparr>coverFiles := (coverFiles s1)(coverPath \<mapsto> coverData)\<rparr>;
                comicRecord' = comicRecord\<lparr>cover := ''/covers/'' @ coverFileName\<rparr>;
                s3 = s2\<lparr>comicsDB := comicsDB s2 @ [comicRecord']\<rparr>
            in if dbWritable env
               then (Returned, s3\<lparr>DB_FILE := Json (comicsDB s3)\<rparr>)
               else (Thrown DbWriteError, s3)))"

text \<open>
  The \<^verbatim>\<open>for\<close> loop of \<^verbatim>\<open>scanComicsDirectory\<close> over the zip files: a file with a record
  of its name is passed over, any other is given to \<^verbatim>\<open>processNewComic\<close>, and an
  exception of that call leaves the loop. The loop is that of one pass which no other
  pass interrupts: the look-up of the record and the push of \<^verbatim>\<open>processNewComic\<close> are one
  step here, while the source waits between them.
\<close>

fun scanLoop :: "env \<Rightarrow> string list \<Rightarrow> state \<Rightarrow> completion \<times> state" where
  "scanLoop env [] s = (Returned, s)"
| "scanLoop env (file # zipFiles) s =
     (case find (\<lambda>c. fileName c = file) (comicsDB s) of
        Some existing \<Rightarrow> scanLoop env zipFiles s
      | None \<Rightarrow>
          (case processNewComic env file s of
             (Returned, s') \<Rightarrow> scanLoop env zipFiles s'
           | (Thrown e, s') \<Rightarrow> (Thrown e, s')))"

definition isZipFile :: "string \<Rightarrow> bool" where
  "isZipFile file \<longleftrightarrow> toLowerCase (extname file) = ''.zip''"

definition scanComicsDirectory :: "env \<Rightarrow> state \<Rightarrow> completion \<times> state" where
  "scanComicsDirectory env s =
     (case readdir env of
        None \<Rightarrow> (Thrown ReaddirError, s)
      | Some files \<Rightarrow> scanLoop env (filter isZipFile files) s)"

text \<open>
  Two passes that overlap (two requests of \<^verbatim>\<open>GET /api/comics\<close>, each calling
  \<^verbatim>\<open>scanComicsDirectory\<close>) at a zip file \<open>file\<close>: the first pass looks for a record of
  the file and starts \<^verbatim>\<open>processNewComic\<close>, which is suspended at its cover write; the
  second pass does the same; then the first call is resumed and after it the second.
  \<open>None\<close> when one of the passes finds a record or one of the calls ends before its
  cover write.
\<close>

definition overlappingPasses :: "env \<Rightarrow> string \<Rightarrow> state \<Rightarrow> state option" where
  "overlappingPasses env file s =
     (case find (\<lambda>c. fileName c = file) (comicsDB s) of
        Some existing \<Rightarrow> None
      | None \<Rightarrow>
          (case processNewComicStart env file s of
             (Inl r, s1) \<Rightarrow> None
           | (Inr first, s1) \<Rightarrow>
               (case find (\<lambda>c. fileName c = file) (comicsDB s1) of
                  Some existing \<Rightarrow> None
                | None \<Rightarrow>
                    (case processNewComicStart env file s1 of
                       (Inl r, s2) \<Rightarrow> None
                     | (Inr second, s2) \<Rightarrow>
                         Some (snd (processNewComicResume env second
                                      (snd (processNewComicResume env first s2))))))))"

text \<open>
  \<^verbatim>\<open>initialize\<close>. The \<^verbatim>\<open>catch\<close> block writes \<^verbatim>\<open>[]\<close> when the error is \<^verbatim>\<open>ENOENT\<close>
  and does nothing for any other error, so a rejected \<^verbatim>\<open>JSON.parse\<close> leaves
  \<^verbatim>\<open>comicsDB\<close> as it was and the scan follows. A throw of the \<^verbatim>\<open>writeFile\<close> inside the
  \<^verbatim>\<open>catch\<close> block leaves \<^verbatim>\<open>initialize\<close>.
\<close>

definition initialize :: "env \<Rightarrow> state \<Rightarrow> completion \<times> state" where
  "initialize env s =
     (case DB_FILE s of
        Json records \<Rightarrow> scanComicsDirectory env (s\<lparr>comicsDB := records\<rparr>)
      | Malformed \<Rightarrow> scanComicsDirectory env s
      | Absent \<Rightarrow>
          if dbWritable env then scanComicsDirectory env (s\<lparr>DB_FILE := Json []\<rparr>)
          else (Thrown DbWriteError, s))"

text \<open>The state when the module has been loaded: \<^verbatim>\<open>let comicsDB = []\<close>.\<close>

definition moduleLoaded :: "dbContent \<Rightarrow> (string \<rightharpoonup> buffer) \<Rightarrow> state" where
  "moduleLoaded db covers = \<lparr>comicsDB = [], DB_FILE = db, coverFiles = covers, built = 0\<rparr>"

subsection \<open>The page route\<close>

text \<open>
  A response: \<^verbatim>\<open>res.status(n).send(text)\<close>, or \<^verbatim>\<open>res.setHeader('Content-Type', t)\<close>
  followed by \<^verbatim>\<open>res.send(data)\<close> with the status \<open>200\<close>.
\<close>

datatype response = Send nat string | SendImage string buffer

definition mimeTypes :: "(string \<times> string) list" where
  "mimeTypes =
     [(''.jpg'', ''image/jpeg''), (''.jpeg'', ''image/jpeg''), (''.png'', ''image/png''),
      (''.gif'', ''image/gif''), (''.webp'', ''image/webp'')]"

definition mimeType :: "string \<Rightarrow> string" where
  "mimeType ext =
     (case map_of mimeTypes ext of Some t \<Rightarrow> t | None \<Rightarrow> ''application/octet-stream'')"

text \<open>
  The handler of \<^verbatim>\<open>GET /api/comic/:id/page/:pageNumber\<close>, with the state it leaves (it
  assigns nothing). Every exception inside its \<^verbatim>\<open>try\<close> is answered with \<open>500\<close>. When
  \<^verbatim>\<open>pageIndex\<close> is \<^verbatim>\<open>NaN\<close> both comparisons of the range check are false,
  \<^verbatim>\<open>images[NaN]\<close> is \<^verbatim>\<open>undefined\<close> and reading \<^verbatim>\<open>image.name\<close> throws.
\<close>

definition pageRoute :: "env \<Rightarrow> state \<Rightarrow> string \<Rightarrow> string \<Rightarrow> response \<times> state" where
  "pageRoute env s ident pageNumber =
     (let pageIndex = parseInt pageNumber in
      case find (\<lambda>c. comicId c = ident) (comicsDB s) of
        None \<Rightarrow> (Send 404 ''Comic not found'', s)
      | Some comic \<Rightarrow>
          (case archiveAt env (filePath comic) of
             Missing \<Rightarrow> (Send 404 ''File not found'', s)
           | Unreadable \<Rightarrow> (Send 500 ''Internal Server Error'', s)
           | Zip zipEntries \<Rightarrow>
               (let imgs = images (collate env) zipEntries in
                case pageIndex of
                  None \<Rightarrow> (Send 500 ''Internal Server Error'', s)
                | Some k \<Rightarrow>
                    if k < 0 \<or> k \<ge> int (length imgs) then (Send 400 ''Invalid page number'', s)
                    else
                      (let image = imgs ! nat k in
                       case readFile image of
                         None \<Rightarrow> (Send 500 ''Internal Server Error'', s)
                       | Some imageData \<Rightarrow>
                           (SendImage (mimeType (toLowerCase (extname (name image)))) imageData,
                            s)))))"

subsection \<open>Concrete inputs\<close>

text \<open>An archive whose two image names differ in the case of the first letter.\<close>

definition mixedCaseEntries :: "entry list" where
  "mixedCaseEntries =
     [\<lparr>name = ''B.jpg'', isDirectory = False, readFile = Some [66]\<rparr>,
      \<lparr>name = ''a.jpg'', isDirectory = False, readFile = Some [97]\<rparr>]"

text \<open>The archive \<^verbatim>\<open>foo.zip\<close> with the entries \<^verbatim>\<open>b.png\<close>, \<^verbatim>\<open>a.jpg\<close> and a directory.\<close>

definition fooEntries :: "entry list" where
  "fooEntries =
     [\<lparr>name = ''b.png'', isDirectory = False, readFile = Some [137, 80]\<rparr>,
      \<lparr>name = ''a.jpg'', isDirectory = False, readFile = Some [255, 216]\<rparr>,
      \<lparr>name = ''cover'', isDirectory = True, readFile = None\<rparr>]"

text \<open>
  A server directory \<^verbatim>\<open>/srv\<close> whose comics directory lists \<^verbatim>\<open>foo.zip\<close> and a text
  file; every write succeeds and the n-th identifier is \<open>n + 1\<close> letters \<^verbatim>\<open>u\<close>.
\<close>

definition fooEnv :: env where
  "fooEnv =
     \<lparr>dirname = ''/srv'', collate = localeCompare,
      readdir = Some [''foo.zip'', ''notes.txt''],
      archiveAt = (\<lambda>p. if p = ''/srv/comics/foo.zip'' then Zip fooEntries else Missing),
      coverWritable = (\<lambda>p. True), dbWritable = True,
      uuidv4 = (\<lambda>n. replicate (Suc n) CHR ''u''),
      toISOString = (\<lambda>n. ''2025-01-01T00:00:00.000Z'')\<rparr>"

text \<open>The record that the first scan of that directory builds, and the state it leaves.\<close>

definition fooRecord :: comic where
  "fooRecord =
     \<lparr>comicId = ''u'', fileName = ''foo.zip'', filePath = ''/srv/comics/foo.zip'',
      title = ''foo'', cover = ''/covers/u.jpg'', pageCount = 2,
      addedAt = ''2025-01-01T00:00:00.000Z'', tags = []\<rparr>"

definition fooIndexed :: state where
  "fooIndexed =
     \<lparr>comicsDB = [fooRecord], DB_FILE = Json [fooRecord],
      coverFiles = [''/srv/public/covers/u.jpg'' \<mapsto> [255, 216]], built = 1\<rparr>"


text \<open>The same directory after every archive has been deleted.\<close>

definition goneEnv :: env where
  "goneEnv = fooEnv\<lparr>archiveAt := \<lambda>p. Missing\<rparr>"

text \<open>
  A comics directory that lists an unreadable \<^verbatim>\<open>bad.zip\<close> in front of the archive
  \<^verbatim>\<open>foo.zip\<close>.
\<close>

definition badEnv :: env where
  "badEnv =
     \<lparr>dirname = ''/srv'', collate = localeCompare,
      readdir = Some [''bad.zip'', ''foo.zip''],
      archiveAt = (\<lambda>p. if p = ''/srv/comics/foo.zip'' then Zip fooEntries
                        else if p = ''/srv/comics/bad.zip'' then Unreadable else Missing),
      coverWritable = (\<lambda>p. True), dbWritable = True,
      uuidv4 = (\<lambda>n. replicate (Suc n) CHR ''u''),
      toISOString = (\<lambda>n. ''2025-01-01T00:00:00.000Z'')\<rparr>"

text \<open>The same directory when \<^verbatim>\<open>foo.zip\<close> holds \<^verbatim>\<open>B.jpg\<close> and \<^verbatim>\<open>a.jpg\<close>.\<close>

definition mixedEnv :: env where
  "mixedEnv =
     fooEnv\<lparr>archiveAt :=
              \<lambda>p. if p = ''/srv/comics/foo.zip'' then Zip mixedCaseEntries else Missing\<rparr>"



text \<open>An archive without an image: a text file and a directory named like an image.\<close>

definition textOnlyEntries :: "entry list" where
  "textOnlyEntries =
     [\<lparr>name = ''readme.txt'', isDirectory = False, readFile = Some [104, 105]\<rparr>,
      \<lparr>name = ''scans.jpg'', isDirectory = True, readFile = None\<rparr>]"

subsection \<open>Predicates of the properties\<close>

text \<open>
  A record is complete in a state when its page count is at least one, its cover
  reference is not empty and the cover file of its identifier has been written.
\<close>

definition recordComplete :: "env \<Rightarrow> state \<Rightarrow> comic \<Rightarrow> bool" where
  "recordComplete env s c \<longleftrightarrow>
     1 \<le> pageCount c \<and> cover c \<noteq> [] \<and>
     coverFiles s (coverPathOf env (comicId c @ ''.jpg'')) \<noteq> None"

section \<open>Properties\<close>

subsection \<open>Unfolding the library functions on concrete strings\<close>

lemmas string_simps = toLowerCase_def lowerChar_def upperLetters_def lowerLetters_def
  extname_def lastComponent_def parseName_def pathJoin_def IMAGE_EXTENSIONS_def

lemmas collation_simps = localeCompare_def collationKey_def primaryWeight_def caseWeight_def

subsection \<open>The stable sort\<close>

lemma mset_insertSorted: "mset (insertSorted c x ys) = add_mset x (mset ys)"
  by (induction ys) auto

lemma mset_sortWith: "mset (sortWith c xs) = mset xs"
  by (induction xs) (auto simp: mset_insertSorted)

lemma set_insertSorted: "set (insertSorted c x ys) = insert x (set ys)"
  by (induction ys) auto

lemma sortWith_Nil_iff: "sortWith c xs = [] \<longleftrightarrow> xs = []"
  using mset_sortWith [of c xs] by (metis mset_zero_iff)

lemma length_sortWith: "length (sortWith c xs) = length xs"
  using mset_sortWith [of c xs] by (metis size_mset)

lemma sorted_insertSorted:
  assumes "consistentComparator c" and "sorted_wrt (\<lambda>a b. c a b \<le> 0) ys"
  shows "sorted_wrt (\<lambda>a b. c a b \<le> 0) (insertSorted c x ys)"
  using assms(2)
proof (induction ys)
  case Nil
  then show ?case by simp
next
  case (Cons y ys)
  have total: "\<not> c x y \<le> 0 \<Longrightarrow> c y x \<le> 0"
    using assms(1) unfolding consistentComparator_def by (metis not_le order_less_imp_le)
  have trans: "\<And>a b d. c a b \<le> 0 \<Longrightarrow> c b d \<le> 0 \<Longrightarrow> c a d \<le> 0"
    using assms(1) unfolding consistentComparator_def by blast
  show ?case
  proof (cases "c x y \<le> 0")
    case True
    then show ?thesis using Cons.prems trans by auto
  next
    case False
    then show ?thesis using Cons total by (auto simp: set_insertSorted)
  qed
qed

lemma sorted_sortWith:
  "consistentComparator c \<Longrightarrow> sorted_wrt (\<lambda>a b. c a b \<le> 0) (sortWith c xs)"
  by (induction xs) (auto intro: sorted_insertSorted)

text \<open>Stability: the elements of a class whose members never compare greater than one
  another come out in the order they went in.\<close>

lemma filter_insertSorted:
  assumes "\<And>y. P x \<Longrightarrow> P y \<Longrightarrow> c x y \<le> 0"
  shows "filter P (insertSorted c x ys) = (if P x then x # filter P ys else filter P ys)"
  using assms by (induction ys) auto

lemma filter_sortWith:
  assumes "\<And>x y. P x \<Longrightarrow> P y \<Longrightarrow> c x y \<le> 0"
  shows "filter P (sortWith c xs) = filter P xs"
  using assms by (induction xs) (auto simp: filter_insertSorted)

lemma consistentComparator_contramap:
  "consistentComparator c \<Longrightarrow> consistentComparator (\<lambda>a b. c (f a) (f b))"
  unfolding consistentComparator_def by blast

lemma localeCompare_consistent: "consistentComparator localeCompare"
  unfolding consistentComparator_def localeCompare_def by (auto simp: not_less)

subsection \<open>The ordered page list\<close>

lemma images_qualifying:
  "images cmp zipEntries = sortWith (\<lambda>a b. cmp (name a) (name b)) (qualifying zipEntries)"
  by (simp add: images_def qualifying_def conj_commute)

lemma images_mixedCaseEntries: "images localeCompare mixedCaseEntries = rev mixedCaseEntries"
  by (simp add: images_def mixedCaseEntries_def string_simps collation_simps)

lemma images_fooEntries:
  "images localeCompare fooEntries = [fooEntries ! 1, fooEntries ! 0]"
  by (simp add: images_def fooEntries_def string_simps collation_simps)

text \<open>
  C1, as the code has it. The page list holds exactly the entries that are not directories
  and whose lower-cased extension is one of the five image extensions, each as often as
  the archive lists it. It is ordered by the comparison \<open>cmp\<close> of the entry names, which
  the code takes from \<^verbatim>\<open>localeCompare\<close> (the collation of the runtime, not the order of
  the bytes), and the sort is stable: entries whose names compare equal to a name \<open>n\<close>
  keep their archive order. Position \<open>N\<close> of this list is page \<open>N\<close>.
\<close>

theorem images_filtered_and_sorted_by_collation:
  assumes "consistentComparator cmp"
  shows "mset (images cmp zipEntries) = mset (qualifying zipEntries) \<and>
         sorted_wrt (\<lambda>a b. cmp (name a) (name b) \<le> 0) (images cmp zipEntries) \<and>
         filter (\<lambda>e. cmp (name e) n \<le> 0 \<and> cmp n (name e) \<le> 0) (images cmp zipEntries) =
           filter (\<lambda>e. cmp (name e) n \<le> 0 \<and> cmp n (name e) \<le> 0) (qualifying zipEntries)"
proof -
  have trans: "\<And>a b d. cmp a b \<le> 0 \<Longrightarrow> cmp b d \<le> 0 \<Longrightarrow> cmp a d \<le> 0"
    using assms unfolding consistentComparator_def by blast
  have "sorted_wrt (\<lambda>a b. cmp (name a) (name b) \<le> 0) (images cmp zipEntries)"
    unfolding images_qualifying
    by (rule sorted_sortWith) (rule consistentComparator_contramap [OF assms])
  moreover have "filter (\<lambda>e. cmp (name e) n \<le> 0 \<and> cmp n (name e) \<le> 0) (images cmp zipEntries) =
      filter (\<lambda>e. cmp (name e) n \<le> 0 \<and> cmp n (name e) \<le> 0) (qualifying zipEntries)"
    unfolding images_qualifying
    by (rule filter_sortWith) (blast intro: trans)
  ultimately show ?thesis
    by (simp add: images_qualifying mset_sortWith)
qed

theorem images_filtered_and_sorted_by_collation_witness:
  "consistentComparator localeCompare \<and>
   qualifying fooEntries = [fooEntries ! 0, fooEntries ! 1] \<and>
   images localeCompare fooEntries = [fooEntries ! 1, fooEntries ! 0] \<and>
   sorted_wrt (\<lambda>a b. localeCompare (name a) (name b) \<le> 0) (images localeCompare fooEntries)"
  using images_filtered_and_sorted_by_collation [OF localeCompare_consistent, of fooEntries "[]"]
    localeCompare_consistent images_fooEntries
  by (simp add: qualifying_def fooEntries_def string_simps)

text \<open>
  C1 as stated fails: for the names \<^verbatim>\<open>B.jpg\<close> and \<^verbatim>\<open>a.jpg\<close> the collation puts
  \<^verbatim>\<open>a.jpg\<close> first, and in the order of the bytes \<^verbatim>\<open>B.jpg\<close> is the smaller name.
\<close>

theorem images_not_bytewise_sorted:
  "map name (images localeCompare mixedCaseEntries) = [''a.jpg'', ''B.jpg''] \<and>
   ''B.jpg'' < ''a.jpg'' \<and>
   \<not> sorted (map name (images localeCompare mixedCaseEntries))"
  by (simp add: images_mixedCaseEntries) (simp add: mixedCaseEntries_def)

subsection \<open>The concrete directory\<close>

lemmas env_simps = fooEnv_def COMICS_DIR_def coverPathOf_def pathJoin_def

lemma images_foo:
  "images localeCompare fooEntries =
     [\<lparr>name = ''a.jpg'', isDirectory = False, readFile = Some [255, 216]\<rparr>,
      \<lparr>name = ''b.png'', isDirectory = False, readFile = Some [137, 80]\<rparr>]"
  by (simp add: images_def fooEntries_def string_simps collation_simps)

lemma processNewComic_foo:
  "processNewComic fooEnv ''foo.zip'' (moduleLoaded d Map.empty) = (Returned, fooIndexed)"
  by (simp add: processNewComic_def env_simps images_foo moduleLoaded_def Let_def
      fooIndexed_def fooRecord_def string_simps)

lemma isZipFile_foo: "isZipFile ''foo.zip''" "\<not> isZipFile ''notes.txt''"
  by (simp_all add: isZipFile_def string_simps)

lemma moduleLoaded_sel:
  "comicsDB (moduleLoaded d c) = []" "DB_FILE (moduleLoaded d c) = d"
  "coverFiles (moduleLoaded d c) = c" "built (moduleLoaded d c) = 0"
  by (simp_all add: moduleLoaded_def)

lemma scan_foo:
  "scanComicsDirectory fooEnv (moduleLoaded d Map.empty) = (Returned, fooIndexed)"
proof -
  have "readdir fooEnv = Some [''foo.zip'', ''notes.txt'']"
    by (simp add: fooEnv_def)
  then show ?thesis
    by (simp add: scanComicsDirectory_def isZipFile_foo processNewComic_foo moduleLoaded_sel)
qed

subsection \<open>The exits of \<^verbatim>\<open>processNewComic\<close>\<close>

lemma length_images: "length (images cmp es) = length (qualifying es)"
  by (simp add: images_qualifying length_sortWith)

lemma images_Nil_iff: "images cmp es = [] \<longleftrightarrow> qualifying es = []"
  by (simp add: images_qualifying sortWith_Nil_iff)

lemma processNewComic_exits:
  assumes "processNewComic env file s = (r, s')"
  obtains
    (unopened) "archiveAt env (pathJoin (COMICS_DIR env) file) \<in> {Missing, Unreadable}"
      "r = Thrown ArchiveError" "s' = s"
  | (noImages) es where "archiveAt env (pathJoin (COMICS_DIR env) file) = Zip es"
      "images (collate env) es = []" "r = Returned" "s' = s"
  | (noCoverData) es where "archiveAt env (pathJoin (COMICS_DIR env) file) = Zip es"
      "images (collate env) es \<noteq> []" "readFile (hd (images (collate env) es)) = None"
      "r = Thrown ExtractError" "s' = s"
  | (coverNotWritten) es where "archiveAt env (pathJoin (COMICS_DIR env) file) = Zip es"
      "images (collate env) es \<noteq> []"
      "\<not> coverWritable env (coverPathOf env (uuidv4 env (built s) @ ''.jpg''))"
      "r = Thrown CoverWriteError" "s' = s\<lparr>built := Suc (built s)\<rparr>"
  | (pushed) es d c where "archiveAt env (pathJoin (COMICS_DIR env) file) = Zip es"
      "images (collate env) es \<noteq> []" "readFile (hd (images (collate env) es)) = Some d"
      "c = \<lparr>comicId = uuidv4 env (built s), fileName = file,
            filePath = pathJoin (COMICS_DIR env) file, title = parseName file,
            cover = ''/covers/'' @ uuidv4 env (built s) @ ''.jpg'',
            pageCount = length (images (collate env) es),
            addedAt = toISOString env (built s), tags = []\<rparr>"
      "comicsDB s' = comicsDB s @ [c]"
      "coverFiles s' = (coverFiles s)(coverPathOf env (comicId c @ ''.jpg'') \<mapsto> d)"
      "built s' = Suc (built s)"
      "if dbWritable env then r = Returned \<and> DB_FILE s' = Json (comicsDB s')
       else r = Thrown DbWriteError \<and> DB_FILE s' = DB_FILE s"
proof (cases "archiveAt env (pathJoin (COMICS_DIR env) file)")
  case Missing
  with assms unopened show ?thesis by (simp add: processNewComic_def)
next
  case Unreadable
  with assms unopened show ?thesis by (simp add: processNewComic_def)
next
  case (Zip es)
  show ?thesis
  proof (cases "images (collate env) es = []")
    case True
    with assms Zip noImages show ?thesis by (simp add: processNewComic_def)
  next
    case nonempty: False
    show ?thesis
    proof (cases "readFile (hd (images (collate env) es))")
      case None
      with assms Zip nonempty noCoverData show ?thesis by (simp add: processNewComic_def)
    next
      case (Some d)
      show ?thesis
      proof (cases "coverWritable env (coverPathOf env (uuidv4 env (built s) @ ''.jpg''))")
        case False
        with assms Zip nonempty Some coverNotWritten show ?thesis
          by (simp add: processNewComic_def Let_def)
      next
        case True
        with assms Zip nonempty Some show ?thesis
          by (intro pushed [of es d]) (auto simp: processNewComic_def Let_def split: if_splits)
      qed
    qed
  qed
qed

subsection \<open>The scan\<close>

lemma processNewComic_prefix:
  "\<exists>new. comicsDB (snd (processNewComic env file s)) = comicsDB s @ new \<and>
         (\<forall>c \<in> set new. fileName c = file)"
proof -
  obtain r s' where eq: "processNewComic env file s = (r, s')" by (cases "processNewComic env file s")
  then show ?thesis by (cases rule: processNewComic_exits) (auto simp: eq)
qed

lemma scanLoop_prefix:
  "\<exists>new. comicsDB (snd (scanLoop env files s)) = comicsDB s @ new \<and>
         (\<forall>c \<in> set new. fileName c \<in> set files)"
proof (induction files arbitrary: s)
  case Nil
  then show ?case by simp
next
  case (Cons f0 files)
  show ?case
  proof (cases "find (\<lambda>c. fileName c = f0) (comicsDB s)")
    case (Some existing)
    with Cons.IH [of s] show ?thesis by auto
  next
    case None
    obtain r s1 where eq: "processNewComic env f0 s = (r, s1)"
      by (cases "processNewComic env f0 s")
    from processNewComic_prefix [of env f0 s] eq obtain new1
      where n1: "comicsDB s1 = comicsDB s @ new1" "\<forall>c \<in> set new1. fileName c = f0"
      by auto
    show ?thesis
    proof (cases r)
      case Returned
      from Cons.IH [of s1] obtain new2
        where n2: "comicsDB (snd (scanLoop env files s1)) = comicsDB s1 @ new2"
          "\<forall>c \<in> set new2. fileName c \<in> set files" by auto
      have "comicsDB (snd (scanLoop env (f0 # files) s)) = comicsDB s @ (new1 @ new2)"
        using None eq Returned n1 n2 by simp
      moreover have "\<forall>c \<in> set (new1 @ new2). fileName c \<in> set (f0 # files)"
        using n1 n2 by auto
      ultimately show ?thesis by blast
    next
      case (Thrown e)
      with None eq n1 show ?thesis by auto
    qed
  qed
qed

lemma find_fileName_None_iff:
  "find (\<lambda>c. fileName c = file) db = None \<longleftrightarrow> file \<notin> fileName ` set db"
  by (auto simp: find_None_iff)



text \<open>A call that returns has either left a record of the file or will return again
  without a change, whatever the state.\<close>

lemma processNewComic_Returned:
  assumes "processNewComic env file s = (Returned, s1)"
  shows "file \<in> fileName ` set (comicsDB s1) \<or>
         (s1 = s \<and> (\<forall>t. processNewComic env file t = (Returned, t)))"
  using assms
proof (cases rule: processNewComic_exits)
  case (noImages es)
  then show ?thesis by (simp add: processNewComic_def)
next
  case (pushed es d c)
  then show ?thesis by simp
qed simp_all

lemma scanLoop_Returned_mono:
  assumes "scanLoop env files s = (Returned, s')" and "file \<in> fileName ` set (comicsDB s)"
  shows "file \<in> fileName ` set (comicsDB s')"
  using scanLoop_prefix [of env files s] assms by auto

lemma scanLoop_idempotent:
  "scanLoop env files s = (Returned, s') \<Longrightarrow> scanLoop env files s' = (Returned, s')"
proof (induction files arbitrary: s)
  case Nil
  then show ?case by simp
next
  case (Cons f0 files)
  show ?case
  proof (cases "find (\<lambda>c. fileName c = f0) (comicsDB s)")
    case (Some existing)
    with Cons.prems have rest: "scanLoop env files s = (Returned, s')" by simp
    from Some have "f0 \<in> fileName ` set (comicsDB s)"
      using find_fileName_None_iff [of f0 "comicsDB s"] by auto
    then have "f0 \<in> fileName ` set (comicsDB s')"
      using scanLoop_Returned_mono [OF rest] by simp
    then obtain e where "find (\<lambda>c. fileName c = f0) (comicsDB s') = Some e"
      using find_fileName_None_iff [of f0 "comicsDB s'"] by (cases "find (\<lambda>c. fileName c = f0) (comicsDB s')") auto
    then show ?thesis using Cons.IH [OF rest] by simp
  next
    case None
    obtain r s1 where eq: "processNewComic env f0 s = (r, s1)"
      by (cases "processNewComic env f0 s")
    with None Cons.prems have r: "r = Returned" and rest: "scanLoop env files s1 = (Returned, s')"
      by (cases r; simp)+
    have again: "scanLoop env files s' = (Returned, s')" by (rule Cons.IH [OF rest])
    show ?thesis
    proof (cases "find (\<lambda>c. fileName c = f0) (comicsDB s')")
      case (Some e)
      then show ?thesis using again by simp
    next
      case None': None
      then have "f0 \<notin> fileName ` set (comicsDB s')" by (simp add: find_fileName_None_iff)
      then have "f0 \<notin> fileName ` set (comicsDB s1)"
        using scanLoop_Returned_mono [OF rest] by blast
      then have "processNewComic env f0 s' = (Returned, s')"
        using processNewComic_Returned [OF eq [unfolded r]] by simp
      then show ?thesis using None' again by simp
    qed
  qed
qed





subsection \<open>Appended records\<close>

lemma processNewComic_coverFiles_mono:
  assumes "coverFiles s p \<noteq> None"
  shows "coverFiles (snd (processNewComic env f s)) p \<noteq> None"
proof -
  obtain r s' where eq: "processNewComic env f s = (r, s')" by (cases "processNewComic env f s")
  then show ?thesis using assms by (cases rule: processNewComic_exits) (auto simp: eq)
qed

lemma scanLoop_coverFiles_mono:
  "coverFiles s p \<noteq> None \<Longrightarrow> coverFiles (snd (scanLoop env files s)) p \<noteq> None"
proof (induction files arbitrary: s)
  case Nil
  then show ?case by simp
next
  case (Cons f0 files)
  show ?case
  proof (cases "find (\<lambda>c. fileName c = f0) (comicsDB s)")
    case (Some existing)
    with Cons show ?thesis by simp
  next
    case None
    obtain r s1 where eq: "processNewComic env f0 s = (r, s1)"
      by (cases "processNewComic env f0 s")
    have c1: "coverFiles s1 p \<noteq> None"
      using processNewComic_coverFiles_mono [OF Cons.prems, of env f0] eq by simp
    show ?thesis
      using None eq c1 Cons.IH [OF c1] by (cases r) simp_all
  qed
qed

lemma processNewComic_new_complete:
  "\<exists>new. comicsDB (snd (processNewComic env f s)) = comicsDB s @ new \<and>
         (\<forall>c \<in> set new. recordComplete env (snd (processNewComic env f s)) c)"
proof -
  obtain r s' where eq: "processNewComic env f s = (r, s')" by (cases "processNewComic env f s")
  then show ?thesis
    by (cases rule: processNewComic_exits) (auto simp: eq recordComplete_def Suc_le_eq)
qed

lemma scanLoop_new_complete:
  "\<exists>new. comicsDB (snd (scanLoop env files s)) = comicsDB s @ new \<and>
         (\<forall>c \<in> set new. recordComplete env (snd (scanLoop env files s)) c)"
proof (induction files arbitrary: s)
  case Nil
  then show ?case by simp
next
  case (Cons f0 files)
  show ?case
  proof (cases "find (\<lambda>c. fileName c = f0) (comicsDB s)")
    case (Some existing)
    with Cons.IH [of s] show ?thesis by simp
  next
    case None
    obtain r s1 where eq: "processNewComic env f0 s = (r, s1)"
      by (cases "processNewComic env f0 s")
    from processNewComic_new_complete [of env f0 s] eq obtain new1
      where n1: "comicsDB s1 = comicsDB s @ new1" "\<forall>c \<in> set new1. recordComplete env s1 c"
      by auto
    show ?thesis
    proof (cases r)
      case Returned
      let ?s' = "snd (scanLoop env files s1)"
      from Cons.IH [of s1] obtain new2
        where n2: "comicsDB ?s' = comicsDB s1 @ new2" "\<forall>c \<in> set new2. recordComplete env ?s' c"
        by auto
      have "\<forall>c \<in> set new1. recordComplete env ?s' c"
        using n1(2) scanLoop_coverFiles_mono [of s1 _ env files]
        by (auto simp: recordComplete_def)
      with n2 have "\<forall>c \<in> set (new1 @ new2). recordComplete env ?s' c" by auto
      moreover have "comicsDB ?s' = comicsDB s @ (new1 @ new2)" using n1 n2 by simp
      moreover have "scanLoop env (f0 # files) s = scanLoop env files s1"
        using None eq Returned by simp
      ultimately show ?thesis by (metis (no_types, lifting))
    next
      case (Thrown e)
      with None eq n1 show ?thesis by auto
    qed
  qed
qed

text \<open>
  C4. Whatever a pass of \<^verbatim>\<open>scanComicsDirectory\<close> or a call of \<^verbatim>\<open>processNewComic\<close>
  appends to the index is complete in the state that the pass or call leaves, also when an
  exception ends it: the page count is at least one, the cover reference is not empty and
  the cover file is written. An archive without a qualifying image makes
  \<^verbatim>\<open>processNewComic\<close> return with the state unchanged.
\<close>

theorem appended_records_complete:
  "(\<exists>new. comicsDB (snd (scanComicsDirectory env s)) = comicsDB s @ new \<and>
          (\<forall>c \<in> set new. recordComplete env (snd (scanComicsDirectory env s)) c)) \<and>
   (\<exists>new. comicsDB (snd (processNewComic env file s)) = comicsDB s @ new \<and>
          (\<forall>c \<in> set new. recordComplete env (snd (processNewComic env file s)) c)) \<and>
   (\<forall>es. archiveAt env (pathJoin (COMICS_DIR env) file) = Zip es \<and> qualifying es = [] \<longrightarrow>
          processNewComic env file s = (Returned, s))"
proof (intro conjI allI impI)
  show "\<exists>new. comicsDB (snd (scanComicsDirectory env s)) = comicsDB s @ new \<and>
          (\<forall>c \<in> set new. recordComplete env (snd (scanComicsDirectory env s)) c)"
  proof (cases "readdir env")
    case None
    then show ?thesis by (simp add: scanComicsDirectory_def)
  next
    case (Some files)
    then show ?thesis
      using scanLoop_new_complete [of env "filter isZipFile files" s]
      by (simp add: scanComicsDirectory_def)
  qed
  show "\<exists>new. comicsDB (snd (processNewComic env file s)) = comicsDB s @ new \<and>
          (\<forall>c \<in> set new. recordComplete env (snd (processNewComic env file s)) c)"
    by (rule processNewComic_new_complete)
next
  fix es
  assume "archiveAt env (pathJoin (COMICS_DIR env) file) = Zip es \<and> qualifying es = []"
  then show "processNewComic env file s = (Returned, s)"
    by (simp add: processNewComic_def images_Nil_iff)
qed

theorem appended_records_complete_witness:
  "comicsDB (snd (scanComicsDirectory fooEnv (moduleLoaded (Json []) Map.empty))) = [] @ [fooRecord] \<and>
   recordComplete fooEnv fooIndexed fooRecord \<and>
   qualifying textOnlyEntries = [] \<and>
   processNewComic (fooEnv\<lparr>archiveAt := \<lambda>p. Zip textOnlyEntries\<rparr>) ''foo.zip'' fooIndexed =
     (Returned, fooIndexed)"
proof -
  have q: "qualifying textOnlyEntries = []"
    by (simp add: qualifying_def textOnlyEntries_def string_simps)
  have "recordComplete fooEnv fooIndexed fooRecord"
    using appended_records_complete [of fooEnv "moduleLoaded (Json []) Map.empty" "''foo.zip''"]
    by (simp add: scan_foo moduleLoaded_sel) (simp add: fooIndexed_def)
  moreover have "processNewComic (fooEnv\<lparr>archiveAt := \<lambda>p. Zip textOnlyEntries\<rparr>) ''foo.zip'' fooIndexed =
     (Returned, fooIndexed)"
    using appended_records_complete
      [of "fooEnv\<lparr>archiveAt := \<lambda>p. Zip textOnlyEntries\<rparr>" fooIndexed "''foo.zip''"] q
    by simp
  ultimately show ?thesis using q by (simp add: scan_foo fooIndexed_def)
qed

subsection \<open>An archive that cannot be opened\<close>

lemma scanLoop_append:
  "scanLoop env (xs @ ys) s =
     (case scanLoop env xs s of
        (Returned, s1) \<Rightarrow> scanLoop env ys s1
      | (Thrown e, s1) \<Rightarrow> (Thrown e, s1))"
  by (induction xs arbitrary: s) (auto split: option.splits prod.splits completion.splits)

lemma processNewComic_unopened:
  "archiveAt env (pathJoin (COMICS_DIR env) f) \<in> {Missing, Unreadable} \<Longrightarrow>
   processNewComic env f s = (Thrown ArchiveError, s)"
  by (auto simp: processNewComic_def)

text \<open>
  C5, as the code has it. Let the zip files of the listing be \<open>before\<close>, then \<open>file\<close>,
  then \<open>rest\<close>, let the loop over \<open>before\<close> return with the state \<open>s1\<close>, and let
  \<open>file\<close> have no record in \<open>s1\<close> and an archive that cannot be opened. Then the pass ends
  at \<open>file\<close> with the exception of \<^verbatim>\<open>new AdmZip\<close> and leaves \<open>s1\<close>: nothing is recorded
  for \<open>file\<close>, the files of \<open>rest\<close> are not processed, and the next pass tries \<open>file\<close>
  again and ends there in the same way.
\<close>

theorem scan_stops_at_unreadable_archive:
  assumes "readdir env = Some files"
    and "filter isZipFile files = before @ file # rest"
    and "scanLoop env before s = (Returned, s1)"
    and "find (\<lambda>c. fileName c = file) (comicsDB s1) = None"
    and "archiveAt env (pathJoin (COMICS_DIR env) file) \<in> {Missing, Unreadable}"
  shows "scanComicsDirectory env s = (Thrown ArchiveError, s1) \<and>
         scanComicsDirectory env s1 = (Thrown ArchiveError, s1)"
proof -
  have stop: "scanLoop env (file # rest) s1 = (Thrown ArchiveError, s1)"
    using assms(4) processNewComic_unopened [OF assms(5)] by simp
  have again: "scanLoop env before s1 = (Returned, s1)"
    by (rule scanLoop_idempotent [OF assms(3)])
  show ?thesis
    using assms(1,2,3) stop again by (simp add: scanComicsDirectory_def scanLoop_append)
qed

lemma isZipFile_bad: "isZipFile ''bad.zip''"
  by (simp add: isZipFile_def string_simps)

lemmas badEnv_simps = badEnv_def COMICS_DIR_def coverPathOf_def pathJoin_def

theorem scan_stops_at_unreadable_archive_witness:
  "readdir badEnv = Some [''bad.zip'', ''foo.zip''] \<and>
   filter isZipFile [''bad.zip'', ''foo.zip''] = [] @ ''bad.zip'' # [''foo.zip''] \<and>
   archiveAt badEnv (pathJoin (COMICS_DIR badEnv) ''bad.zip'') = Unreadable \<and>
   scanComicsDirectory badEnv (moduleLoaded Absent Map.empty) =
     (Thrown ArchiveError, moduleLoaded Absent Map.empty)"
proof -
  have h: "readdir badEnv = Some [''bad.zip'', ''foo.zip'']"
    "filter isZipFile [''bad.zip'', ''foo.zip''] = [] @ ''bad.zip'' # [''foo.zip'']"
    "archiveAt badEnv (pathJoin (COMICS_DIR badEnv) ''bad.zip'') = Unreadable"
    by (simp_all add: badEnv_simps isZipFile_bad isZipFile_foo)
  have "scanComicsDirectory badEnv (moduleLoaded Absent Map.empty) =
     (Thrown ArchiveError, moduleLoaded Absent Map.empty)"
    using scan_stops_at_unreadable_archive [OF h(1,2), of "moduleLoaded Absent Map.empty"
        "moduleLoaded Absent Map.empty"] h(3)
    by (simp add: moduleLoaded_sel)
  with h show ?thesis by simp
qed

lemma processNewComic_foo_badEnv:
  "processNewComic badEnv ''foo.zip'' (moduleLoaded d Map.empty) =
     (Returned, fooIndexed)"
  by (simp add: processNewComic_def badEnv_simps images_foo moduleLoaded_def Let_def
      fooIndexed_def fooRecord_def string_simps)

text \<open>
  C5 as stated fails: \<^verbatim>\<open>foo.zip\<close> would be indexed by \<^verbatim>\<open>processNewComic\<close>, and the pass
  over \<^verbatim>\<open>bad.zip\<close>, \<^verbatim>\<open>foo.zip\<close> ends at \<^verbatim>\<open>bad.zip\<close> with an empty index.
\<close>

theorem unreadable_archive_aborts_pass:
  "processNewComic badEnv ''foo.zip'' (moduleLoaded (Json []) Map.empty) = (Returned, fooIndexed) \<and>
   scanComicsDirectory badEnv (moduleLoaded (Json []) Map.empty) =
     (Thrown ArchiveError, moduleLoaded (Json []) Map.empty) \<and>
   comicsDB (snd (scanComicsDirectory badEnv (moduleLoaded (Json []) Map.empty))) = []"
proof -
  have "readdir badEnv = Some [''bad.zip'', ''foo.zip'']"
    "archiveAt badEnv (pathJoin (COMICS_DIR badEnv) ''bad.zip'') = Unreadable"
    by (simp_all add: badEnv_simps)
  then have "scanComicsDirectory badEnv (moduleLoaded (Json []) Map.empty) =
     (Thrown ArchiveError, moduleLoaded (Json []) Map.empty)"
    by (simp add: scanComicsDirectory_def isZipFile_bad isZipFile_foo moduleLoaded_sel
        processNewComic_unopened)
  then show ?thesis by (simp add: processNewComic_foo_badEnv moduleLoaded_sel)
qed

subsection \<open>A pass that an exception ends\<close>


subsection \<open>Passes that overlap\<close>

text \<open>
  A call of \<^verbatim>\<open>processNewComic\<close> that nothing interrupts is its first part followed by
  its second. When two passes overlap at a file, both find no record of it before either
  has pushed, and the index ends with two records of the same file name.
\<close>

lemma processNewComic_split:
  "processNewComic env file s =
     (case processNewComicStart env file s of
        (Inl r, s') \<Rightarrow> (r, s')
      | (Inr suspended, s1) \<Rightarrow> processNewComicResume env suspended s1)"
  by (simp add: processNewComic_def processNewComicStart_def processNewComicResume_def Let_def
      split: archive.splits option.splits)

lemma processNewComicStart_foo:
  "processNewComicStart fooEnv ''foo.zip'' s =
     (Inr (\<lparr>comicId = uuidv4 fooEnv (built s), fileName = ''foo.zip'',
             filePath = ''/srv/comics/foo.zip'', title = ''foo'', cover = [], pageCount = 2,
             addedAt = ''2025-01-01T00:00:00.000Z'', tags = []\<rparr>, [255, 216]),
      s\<lparr>built := Suc (built s)\<rparr>)"
  by (simp add: processNewComicStart_def env_simps images_foo Let_def string_simps)

lemma overlapping_passes_push_twice:
  "map_option (\<lambda>s. map fileName (comicsDB s))
     (overlappingPasses fooEnv ''foo.zip'' (moduleLoaded (Json []) Map.empty)) =
   Some [''foo.zip'', ''foo.zip'']"
  by (simp add: overlappingPasses_def processNewComicStart_foo moduleLoaded_sel
      processNewComicResume_def Let_def)
     (simp add: fooEnv_def)

subsection \<open>The index file\<close>

lemma processNewComic_mirror:
  assumes "dbWritable env" and "DB_FILE s = Json (comicsDB s)"
  shows "DB_FILE (snd (processNewComic env f s)) = Json (comicsDB (snd (processNewComic env f s)))"
proof -
  obtain r s' where eq: "processNewComic env f s = (r, s')" by (cases "processNewComic env f s")
  then show ?thesis using assms by (cases rule: processNewComic_exits) (auto simp: eq)
qed

lemma scanLoop_mirror:
  "dbWritable env \<Longrightarrow> DB_FILE s = Json (comicsDB s) \<Longrightarrow>
   DB_FILE (snd (scanLoop env files s)) = Json (comicsDB (snd (scanLoop env files s)))"
proof (induction files arbitrary: s)
  case Nil
  then show ?case by simp
next
  case (Cons f0 files)
  show ?case
  proof (cases "find (\<lambda>c. fileName c = f0) (comicsDB s)")
    case (Some existing)
    with Cons show ?thesis by simp
  next
    case None
    obtain r s1 where eq: "processNewComic env f0 s = (r, s1)"
      by (cases "processNewComic env f0 s")
    have c1: "DB_FILE s1 = Json (comicsDB s1)"
      using processNewComic_mirror [OF Cons.prems, of f0] eq by simp
    show ?thesis
      using None eq c1 Cons.IH [OF Cons.prems(1) c1] by (cases r) simp_all
  qed
qed

lemma scanComicsDirectory_mirror:
  assumes "dbWritable env" and "DB_FILE s = Json (comicsDB s)"
  shows "DB_FILE (snd (scanComicsDirectory env s)) =
         Json (comicsDB (snd (scanComicsDirectory env s)))"
  using assms scanLoop_mirror [OF assms]
  by (cases "readdir env") (simp_all add: scanComicsDirectory_def)

lemma processNewComic_untouched:
  assumes "DB_FILE s = d \<or> dbWritable env \<and> DB_FILE s = Json (comicsDB s)"
  shows "DB_FILE (snd (processNewComic env f s)) = d \<or>
         dbWritable env \<and>
         DB_FILE (snd (processNewComic env f s)) = Json (comicsDB (snd (processNewComic env f s)))"
proof -
  obtain r s' where eq: "processNewComic env f s = (r, s')" by (cases "processNewComic env f s")
  then show ?thesis using assms
    by (cases rule: processNewComic_exits) (auto simp: eq split: if_splits)
qed

lemma scanLoop_untouched:
  "DB_FILE s = d \<or> dbWritable env \<and> DB_FILE s = Json (comicsDB s) \<Longrightarrow>
   DB_FILE (snd (scanLoop env files s)) = d \<or>
   dbWritable env \<and>
   DB_FILE (snd (scanLoop env files s)) = Json (comicsDB (snd (scanLoop env files s)))"
proof (induction files arbitrary: s)
  case Nil
  then show ?case by simp
next
  case (Cons f0 files)
  show ?case
  proof (cases "find (\<lambda>c. fileName c = f0) (comicsDB s)")
    case (Some existing)
    with Cons show ?thesis by simp
  next
    case None
    obtain r s1 where eq: "processNewComic env f0 s = (r, s1)"
      by (cases "processNewComic env f0 s")
    have c1: "DB_FILE s1 = d \<or> dbWritable env \<and> DB_FILE s1 = Json (comicsDB s1)"
      using processNewComic_untouched [OF Cons.prems, of f0] eq by simp
    show ?thesis
      using None eq c1 Cons.IH [OF c1] by (cases r) simp_all
  qed
qed

lemma scanComicsDirectory_untouched:
  assumes "DB_FILE s = d \<or> dbWritable env \<and> DB_FILE s = Json (comicsDB s)"
  shows "DB_FILE (snd (scanComicsDirectory env s)) = d \<or>
   dbWritable env \<and>
   DB_FILE (snd (scanComicsDirectory env s)) = Json (comicsDB (snd (scanComicsDirectory env s)))"
  using assms scanLoop_untouched [OF assms]
  by (cases "readdir env") (simp_all add: scanComicsDirectory_def)

text \<open>
  C6, as the code has it. From the loaded module, when \<^verbatim>\<open>comics.json\<close> is absent and can
  be written, \<^verbatim>\<open>initialize\<close> goes on to the scan with an empty index and the file holding
  \<^verbatim>\<open>[]\<close>, and the file mirrors the index afterwards. When the file is there and does not
  parse, nothing is thrown for it: \<^verbatim>\<open>initialize\<close> goes on to the scan with an empty index
  and the file as it was, and afterwards the file is still malformed or has been
  overwritten with the new index.
\<close>

theorem initialize_absent_or_malformed:
  "(dbWritable env \<longrightarrow>
      initialize env (moduleLoaded Absent covers) =
        scanComicsDirectory env (moduleLoaded (Json []) covers) \<and>
      DB_FILE (snd (initialize env (moduleLoaded Absent covers))) =
        Json (comicsDB (snd (initialize env (moduleLoaded Absent covers))))) \<and>
   initialize env (moduleLoaded Malformed covers) =
     scanComicsDirectory env (moduleLoaded Malformed covers) \<and>
   (DB_FILE (snd (initialize env (moduleLoaded Malformed covers))) = Malformed \<or>
    DB_FILE (snd (initialize env (moduleLoaded Malformed covers))) =
      Json (comicsDB (snd (initialize env (moduleLoaded Malformed covers)))))"
proof -
  have absent: "initialize env (moduleLoaded Absent covers) =
        scanComicsDirectory env (moduleLoaded (Json []) covers)" if "dbWritable env"
    using that by (simp add: initialize_def moduleLoaded_def)
  have malformed: "initialize env (moduleLoaded Malformed covers) =
     scanComicsDirectory env (moduleLoaded Malformed covers)"
    by (simp add: initialize_def moduleLoaded_def)
  have "DB_FILE (snd (scanComicsDirectory env (moduleLoaded (Json []) covers))) =
        Json (comicsDB (snd (scanComicsDirectory env (moduleLoaded (Json []) covers))))"
    if "dbWritable env"
    using scanComicsDirectory_mirror [OF that, of "moduleLoaded (Json []) covers"]
    by (simp add: moduleLoaded_sel)
  moreover have "DB_FILE (snd (scanComicsDirectory env (moduleLoaded Malformed covers))) = Malformed \<or>
    DB_FILE (snd (scanComicsDirectory env (moduleLoaded Malformed covers))) =
      Json (comicsDB (snd (scanComicsDirectory env (moduleLoaded Malformed covers))))"
    using scanComicsDirectory_untouched [of "moduleLoaded Malformed covers" Malformed env]
    by (auto simp: moduleLoaded_sel)
  ultimately show ?thesis using absent malformed by simp
qed

theorem initialize_absent_or_malformed_witness:
  "dbWritable fooEnv \<and>
   initialize fooEnv (moduleLoaded Absent Map.empty) = (Returned, fooIndexed)"
  using initialize_absent_or_malformed [of fooEnv Map.empty]
  by (simp add: scan_foo) (simp add: fooEnv_def)

text \<open>
  C6 as stated fails: with a malformed \<^verbatim>\<open>comics.json\<close> the start-up returns, and the scan
  has replaced the file by the snapshot of the new index.
\<close>

theorem malformed_index_not_fatal:
  "initialize fooEnv (moduleLoaded Malformed Map.empty) = (Returned, fooIndexed) \<and>
   DB_FILE fooIndexed = Json [fooRecord]"
  by (simp add: initialize_def moduleLoaded_sel scan_foo) (simp add: fooIndexed_def)





subsection \<open>Files that are not zip files\<close>

lemma processNewComic_env_cong:
  assumes "dirname e' = dirname e" "collate e' = collate e"
    "archiveAt e' (pathJoin (COMICS_DIR e) f) = archiveAt e (pathJoin (COMICS_DIR e) f)"
    "coverWritable e' = coverWritable e" "dbWritable e' = dbWritable e"
    "uuidv4 e' = uuidv4 e" "toISOString e' = toISOString e"
  shows "processNewComic e' f s = processNewComic e f s"
  using assms
  by (auto simp: processNewComic_def COMICS_DIR_def coverPathOf_def Let_def
      split: archive.splits option.splits)

lemma scanLoop_env_cong:
  assumes "dirname e' = dirname e" "collate e' = collate e"
    "\<forall>f \<in> set files. archiveAt e' (pathJoin (COMICS_DIR e) f) = archiveAt e (pathJoin (COMICS_DIR e) f)"
    "coverWritable e' = coverWritable e" "dbWritable e' = dbWritable e"
    "uuidv4 e' = uuidv4 e" "toISOString e' = toISOString e"
  shows "scanLoop e' files s = scanLoop e files s"
  using assms(3)
proof (induction files arbitrary: s)
  case Nil
  then show ?case by simp
next
  case (Cons f0 files)
  have "processNewComic e' f0 t = processNewComic e f0 t" for t
    using Cons.prems assms(1,2,4-7) by (intro processNewComic_env_cong) simp_all
  with Cons show ?case by (auto split: option.splits prod.splits completion.splits)
qed

text \<open>
  C10. Every record that a pass appends has the name of a listed file whose lower-cased
  extension is \<^verbatim>\<open>.zip\<close>. The pass does not depend on what is at the path of any other
  listed file, and it is the pass over the listing with the other files removed.
\<close>

theorem scan_considers_zip_files_only:
  assumes "readdir env = Some files"
  shows "(\<exists>new. comicsDB (snd (scanComicsDirectory env s)) = comicsDB s @ new \<and>
            (\<forall>c \<in> set new. fileName c \<in> set files \<and> toLowerCase (extname (fileName c)) = ''.zip'')) \<and>
         ((\<forall>f \<in> set files. toLowerCase (extname f) = ''.zip'' \<longrightarrow>
              a (pathJoin (COMICS_DIR env) f) = archiveAt env (pathJoin (COMICS_DIR env) f)) \<longrightarrow>
            scanComicsDirectory (env\<lparr>archiveAt := a\<rparr>) s = scanComicsDirectory env s) \<and>
         scanComicsDirectory (env\<lparr>readdir := Some (filter (\<lambda>f. toLowerCase (extname f) = ''.zip'') files)\<rparr>) s =
           scanComicsDirectory env s"
proof (intro conjI impI)
  show "\<exists>new. comicsDB (snd (scanComicsDirectory env s)) = comicsDB s @ new \<and>
            (\<forall>c \<in> set new. fileName c \<in> set files \<and> toLowerCase (extname (fileName c)) = ''.zip'')"
    using scanLoop_prefix [of env "filter isZipFile files" s] assms
    by (auto simp: scanComicsDirectory_def isZipFile_def)
next
  assume "\<forall>f \<in> set files. toLowerCase (extname f) = ''.zip'' \<longrightarrow>
              a (pathJoin (COMICS_DIR env) f) = archiveAt env (pathJoin (COMICS_DIR env) f)"
  then have "\<forall>f \<in> set (filter isZipFile files).
      a (pathJoin (COMICS_DIR env) f) = archiveAt env (pathJoin (COMICS_DIR env) f)"
    by (simp add: isZipFile_def)
  then have "scanLoop (env\<lparr>archiveAt := a\<rparr>) (filter isZipFile files) s =
      scanLoop env (filter isZipFile files) s"
    by (intro scanLoop_env_cong) simp_all
  with assms
  show "scanComicsDirectory (env\<lparr>archiveAt := a\<rparr>) s = scanComicsDirectory env s"
    by (simp add: scanComicsDirectory_def)
next
  have "scanLoop (env\<lparr>readdir := Some (filter isZipFile files)\<rparr>) zs t = scanLoop env zs t" for zs t
    by (intro scanLoop_env_cong) simp_all
  then show "scanComicsDirectory (env\<lparr>readdir := Some (filter (\<lambda>f. toLowerCase (extname f) = ''.zip'') files)\<rparr>) s =
           scanComicsDirectory env s"
    using assms by (simp add: scanComicsDirectory_def isZipFile_def [abs_def])
qed

theorem scan_considers_zip_files_only_witness:
  "readdir fooEnv = Some [''foo.zip'', ''notes.txt''] \<and>
   toLowerCase (extname ''notes.txt'') \<noteq> ''.zip'' \<and>
   comicsDB (snd (scanComicsDirectory fooEnv (moduleLoaded (Json []) Map.empty))) = [fooRecord] \<and>
   scanComicsDirectory
     (fooEnv\<lparr>archiveAt := \<lambda>p. if p = ''/srv/comics/notes.txt'' then Unreadable
                                else archiveAt fooEnv p\<rparr>)
     (moduleLoaded (Json []) Map.empty) = (Returned, fooIndexed) \<and>
   scanComicsDirectory (fooEnv\<lparr>readdir := Some [''foo.zip'']\<rparr>)
     (moduleLoaded (Json []) Map.empty) = (Returned, fooIndexed)"
proof -
  have r: "readdir fooEnv = Some [''foo.zip'', ''notes.txt'']"
    by (simp add: fooEnv_def)
  have z: "toLowerCase (extname ''foo.zip'') = ''.zip''"
    "toLowerCase (extname ''notes.txt'') \<noteq> ''.zip''"
    by (simp_all add: string_simps)
  have p: "pathJoin (COMICS_DIR fooEnv) ''foo.zip'' \<noteq> ''/srv/comics/notes.txt''"
    by (simp add: env_simps)
  show ?thesis
    using scan_considers_zip_files_only [OF r, of "moduleLoaded (Json []) Map.empty"
        "\<lambda>p. if p = ''/srv/comics/notes.txt'' then Unreadable else archiveAt fooEnv p"]
      r z p
    by (simp add: scan_foo) (simp add: fooIndexed_def)
qed

subsection \<open>The page route\<close>

lemma mimeType_table:
  "mimeType ''.jpg'' = ''image/jpeg''" "mimeType ''.jpeg'' = ''image/jpeg''"
  "mimeType ''.png'' = ''image/png''" "mimeType ''.gif'' = ''image/gif''"
  "mimeType ''.webp'' = ''image/webp''"
  by (simp_all add: mimeType_def mimeTypes_def)

lemma mimeType_other:
  "ext \<notin> set IMAGE_EXTENSIONS \<Longrightarrow> mimeType ext = ''application/octet-stream''"
  by (simp add: mimeType_def mimeTypes_def IMAGE_EXTENSIONS_def)

text \<open>
  C2, as the code has it. For an indexed identifier whose archive opens, and a page number
  that parses to an integer \<open>k\<close> with \<open>0 \<le> k\<close> below the number of qualifying images of
  the archive as it is now, the route sends the bytes of entry \<open>k\<close> of the ordered page
  list (when the entry can be read) with the content type of its lower-cased extension:
  the five image extensions map to their types and anything else to
  \<^verbatim>\<open>application/octet-stream\<close>. The page list holds the qualifying images and is ordered
  by the collation of \<^verbatim>\<open>localeCompare\<close>, not by the bytes of the names.
\<close>

theorem pageRoute_serves_kth_image:
  assumes "find (\<lambda>c. comicId c = ident) (comicsDB s) = Some comic"
    and "archiveAt env (filePath comic) = Zip zipEntries"
    and "parseInt pageNumber = Some k"
    and "0 \<le> k" and "k < int (length (qualifying zipEntries))"
    and "readFile (images (collate env) zipEntries ! nat k) = Some bytes"
  shows "pageRoute env s ident pageNumber =
           (SendImage
              (mimeType (toLowerCase (extname (name (images (collate env) zipEntries ! nat k)))))
              bytes, s) \<and>
         mset (images (collate env) zipEntries) = mset (qualifying zipEntries) \<and>
         (consistentComparator (collate env) \<longrightarrow>
            sorted_wrt (\<lambda>a b. collate env (name a) (name b) \<le> 0)
              (images (collate env) zipEntries)) \<and>
         mimeType ''.jpg'' = ''image/jpeg'' \<and> mimeType ''.jpeg'' = ''image/jpeg'' \<and>
         mimeType ''.png'' = ''image/png'' \<and> mimeType ''.gif'' = ''image/gif'' \<and>
         mimeType ''.webp'' = ''image/webp'' \<and>
         (\<forall>ext. ext \<notin> set IMAGE_EXTENSIONS \<longrightarrow> mimeType ext = ''application/octet-stream'')"
proof -
  have "\<not> (k < 0 \<or> int (length (images (collate env) zipEntries)) \<le> k)"
    using assms(4,5) by (simp add: length_images)
  then have "pageRoute env s ident pageNumber =
           (SendImage
              (mimeType (toLowerCase (extname (name (images (collate env) zipEntries ! nat k)))))
              bytes, s)"
    using assms(1,2,3,6) by (simp add: pageRoute_def Let_def)
  moreover have "consistentComparator (collate env) \<Longrightarrow>
      sorted_wrt (\<lambda>a b. collate env (name a) (name b) \<le> 0) (images (collate env) zipEntries)"
    unfolding images_qualifying
    by (rule sorted_sortWith) (rule consistentComparator_contramap)
  ultimately show ?thesis
    by (simp add: mimeType_table mimeType_other images_qualifying mset_sortWith)
qed

lemma parseInt_examples:
  "parseInt ''0'' = Some 0" "parseInt ''1'' = Some 1" "parseInt ''abc'' = None"
  "parseInt [CHR 0xC2, CHR 0xA0, CHR ''1''] = Some 1"
  by (simp_all add: parseInt_def skipWhiteSpace.simps whiteSpace_def digits_def digitValue_def)

lemma find_fooIndexed:
  "find (\<lambda>c. comicId c = ''u'') (comicsDB fooIndexed) = Some fooRecord"
  "find (\<lambda>c. comicId c = ''v'') (comicsDB fooIndexed) = None"
  by (simp_all add: fooIndexed_def fooRecord_def)

lemma archiveAt_fooRecord:
  "archiveAt fooEnv (filePath fooRecord) = Zip fooEntries"
  "archiveAt goneEnv (filePath fooRecord) = Missing"
  by (simp_all add: fooEnv_def goneEnv_def fooRecord_def)

theorem pageRoute_serves_kth_image_witness:
  "find (\<lambda>c. comicId c = ''u'') (comicsDB fooIndexed) = Some fooRecord \<and>
   archiveAt fooEnv (filePath fooRecord) = Zip fooEntries \<and>
   parseInt ''1'' = Some 1 \<and> (1::int) < int (length (qualifying fooEntries)) \<and>
   consistentComparator (collate fooEnv) \<and>
   sorted_wrt (\<lambda>a b. collate fooEnv (name a) (name b) \<le> 0) (images (collate fooEnv) fooEntries) \<and>
   pageRoute fooEnv fooIndexed ''u'' ''1'' = (SendImage ''image/png'' [137, 80], fooIndexed)"
proof -
  have q: "(1::int) < int (length (qualifying fooEntries))"
    by (simp add: qualifying_def fooEntries_def string_simps)
  have c: "collate fooEnv = localeCompare" by (simp add: fooEnv_def)
  have cc: "consistentComparator (collate fooEnv)"
    by (simp add: c localeCompare_consistent)
  have b: "readFile (images (collate fooEnv) fooEntries ! nat 1) = Some [137, 80]"
    by (simp add: c images_foo)
  note inst = pageRoute_serves_kth_image [OF find_fooIndexed(1) archiveAt_fooRecord(1)
        parseInt_examples(2) _ q b]
  have "pageRoute fooEnv fooIndexed ''u'' ''1'' = (SendImage ''image/png'' [137, 80], fooIndexed)"
    using inst by (simp add: c images_foo) (simp add: string_simps mimeType_table)
  moreover have "sorted_wrt (\<lambda>a b. collate fooEnv (name a) (name b) \<le> 0)
      (images (collate fooEnv) fooEntries)"
    using inst cc by simp
  ultimately show ?thesis using q cc
    by (simp add: find_fooIndexed archiveAt_fooRecord parseInt_examples)
qed

lemma images_mixed:
  "images localeCompare mixedCaseEntries =
     [\<lparr>name = ''a.jpg'', isDirectory = False, readFile = Some [97]\<rparr>,
      \<lparr>name = ''B.jpg'', isDirectory = False, readFile = Some [66]\<rparr>]"
  by (simp add: images_mixedCaseEntries) (simp add: mixedCaseEntries_def)

lemma qualifying_mixed: "qualifying mixedCaseEntries = mixedCaseEntries"
  by (simp add: qualifying_def mixedCaseEntries_def string_simps)

text \<open>
  C2 as stated fails: when \<^verbatim>\<open>foo.zip\<close> holds \<^verbatim>\<open>B.jpg\<close> and \<^verbatim>\<open>a.jpg\<close>, the first
  qualifying image in the order of the bytes is \<^verbatim>\<open>B.jpg\<close>, and page \<open>0\<close> is served with
  the bytes of \<^verbatim>\<open>a.jpg\<close>.
\<close>

theorem page_zero_is_not_bytewise_first:
  "find (\<lambda>c. comicId c = ''u'') (comicsDB fooIndexed) = Some fooRecord \<and>
   archiveAt mixedEnv (filePath fooRecord) = Zip mixedCaseEntries \<and>
   parseInt ''0'' = Some 0 \<and> (0::int) < int (length (qualifying mixedCaseEntries)) \<and>
   sort_key name (qualifying mixedCaseEntries) ! 0 =
     \<lparr>name = ''B.jpg'', isDirectory = False, readFile = Some [66]\<rparr> \<and>
   pageRoute mixedEnv fooIndexed ''u'' ''0'' = (SendImage ''image/jpeg'' [97], fooIndexed)"
proof -
  have a: "archiveAt mixedEnv (filePath fooRecord) = Zip mixedCaseEntries"
    "collate mixedEnv = localeCompare"
    by (simp_all add: mixedEnv_def fooEnv_def fooRecord_def)
  have s: "sort_key name (qualifying mixedCaseEntries) ! 0 =
     \<lparr>name = ''B.jpg'', isDirectory = False, readFile = Some [66]\<rparr>"
    by (simp add: qualifying_mixed) (simp add: mixedCaseEntries_def)
  have "pageRoute mixedEnv fooIndexed ''u'' ''0'' = (SendImage ''image/jpeg'' [97], fooIndexed)"
    by (simp add: pageRoute_def find_fooIndexed a parseInt_examples images_mixed Let_def)
       (simp add: string_simps mimeType_table)
  with a s show ?thesis
    by (simp add: find_fooIndexed parseInt_examples qualifying_mixed) (simp add: mixedCaseEntries_def)
qed

text \<open>
  A page number that parses to an integer outside the page list is answered with \<open>400\<close>.
\<close>

lemma pageRoute_out_of_range:
  assumes "find (\<lambda>c. comicId c = ident) (comicsDB s) = Some comic"
    and "archiveAt env (filePath comic) = Zip zipEntries"
    and "parseInt pageNumber = Some k"
    and "k < 0 \<or> int (length (qualifying zipEntries)) \<le> k"
  shows "pageRoute env s ident pageNumber = (Send 400 ''Invalid page number'', s)"
  using assms by (auto simp: pageRoute_def Let_def length_images)

text \<open>
  C7 fails on the code for a page number without a leading integer: \<^verbatim>\<open>parseInt\<close> gives
  \<^verbatim>\<open>NaN\<close>, the range check lets it pass, and the request is answered with \<open>500\<close>, not
  with \<open>400\<close>.
\<close>

theorem nan_page_number_answered_500:
  "parseInt ''abc'' = None \<and>
   pageRoute fooEnv fooIndexed ''u'' ''abc'' = (Send 500 ''Internal Server Error'', fooIndexed)"
  by (simp add: pageRoute_def find_fooIndexed archiveAt_fooRecord parseInt_examples)

text \<open>
  C9. The route answers \<open>404\<close> with \<^verbatim>\<open>Comic not found\<close> when no record has the identifier,
  and \<open>404\<close> with \<^verbatim>\<open>File not found\<close> when the first such record points to a path with
  nothing there; the state, and so the stale record, is left as it was.
\<close>

theorem pageRoute_not_found:
  "(find (\<lambda>c. comicId c = ident) (comicsDB s) = None \<longrightarrow>
      pageRoute env s ident pageNumber = (Send 404 ''Comic not found'', s)) \<and>
   (\<forall>comic. find (\<lambda>c. comicId c = ident) (comicsDB s) = Some comic \<and>
            archiveAt env (filePath comic) = Missing \<longrightarrow>
      pageRoute env s ident pageNumber = (Send 404 ''File not found'', s))"
  by (simp add: pageRoute_def)

theorem pageRoute_not_found_witness:
  "find (\<lambda>c. comicId c = ''v'') (comicsDB fooIndexed) = None \<and>
   pageRoute fooEnv fooIndexed ''v'' ''0'' = (Send 404 ''Comic not found'', fooIndexed) \<and>
   find (\<lambda>c. comicId c = ''u'') (comicsDB fooIndexed) = Some fooRecord \<and>
   archiveAt goneEnv (filePath fooRecord) = Missing \<and>
   pageRoute goneEnv fooIndexed ''u'' ''0'' = (Send 404 ''File not found'', fooIndexed)"
  using pageRoute_not_found [of "''v''" fooIndexed fooEnv "''0''"]
    pageRoute_not_found [of "''u''" fooIndexed goneEnv "''0''"]
  by (simp add: find_fooIndexed archiveAt_fooRecord)

end
